theory Spec2Isabelle
  imports Main
begin

section \<open>Data model\<close>

text \<open>
  The sheet holds text: a row of it maps a column name to the text of the cell.
  \<open>get_all_records\<close> does not hand that text to the code as it is: it passes every cell
  through the \<open>numericise\<close> of the client library, so that a cell whose text reads as a
  number arrives as an \<open>int\<close> or a \<open>float\<close>, and every other cell as a \<open>str\<close>. A float is
  its mantissa and exponent, or one of the three special values.
\<close>

datatype pyfloat = Finite int int | PosInfinity | NegInfinity | NotANumber

datatype pyval = PStr string | PInt int | PFloat pyfloat

type_synonym sheet_row = "string \<rightharpoonup> string"

text \<open>
  A record is the dictionary that \<open>get_all_records\<close> returns for one row: column name to
  value. A lead is the dictionary \<open>{"index": idx, "data": record}\<close> built by
  \<open>get_new_leads\<close>.
\<close>

type_synonym lead_data = "string \<rightharpoonup> pyval"

record lead =
  index :: nat
  data :: lead_data

text \<open>
  The exceptions the modelled code can meet: a missing dictionary key, a method that the
  value does not have (\<open>lower\<close> on a number), an argument of the wrong type (a number given
  to \<open>re.match\<close>), and a failure of a call to the spreadsheet service (any exception of the
  client library). The last three carry their text.
\<close>

datatype exn = KeyError string | AttributeError string | TypeError string | APIError string

text \<open>\<open>str(e)\<close>: a \<open>KeyError\<close> prints the \<open>repr\<close> of its key, in single quotes.\<close>

fun str_exn :: "exn \<Rightarrow> string" where
  "str_exn (KeyError k) = [CHR 0x27] @ k @ [CHR 0x27]"
| "str_exn (AttributeError m) = m"
| "str_exn (TypeError m) = m"
| "str_exn (APIError m) = m"

text \<open>The calls to \<open>logger.error\<close>, one constructor for each call site, with its arguments.\<close>

datatype log_msg =
    Column_not_found string
  | Error_processing_lead "pyval option" exn
  | Error_in_outreach "pyval option" exn
  | Failed_to_send_email pyval
  | Error_monitoring_leads exn

text \<open>\<open>class TaskQueue\<close>: the two \<open>queue.Queue\<close> objects, oldest task first.\<close>

record TaskQueue =
  verification_queue :: "lead list"
  outreach_queue :: "lead list"

text \<open>\<open>gspread.Cell(row, col, value)\<close>, rows and columns counted from 1.\<close>

record cell =
  row :: nat
  col :: nat
  val :: string

text \<open>
  The state the three workers share or own. The sheet is its header row (what
  \<open>row_values(1)\<close> returns) and the text of its rows below, row 2 first. \<open>api_calls\<close> counts the calls made to the spreadsheet service and \<open>smtp_log\<close>
  lists the messages handed to the mail transport, so that the outcome of each external
  call can be looked up in the environment. \<open>retry_queue\<close> is the queue of \<open>AgentB\<close>, and
  \<open>last_processed_row\<close> the mark of the \<open>Supervisor\<close>. The workers are run one call at a
  time: the interleaving of their threads is not part of the model.
\<close>

record state =
  headers :: "string list"
  records :: "sheet_row list"
  api_calls :: nat
  error_log :: "log_msg list"
  task_queue :: TaskQueue
  retry_queue :: "(lead \<times> nat) list"
  smtp_log :: "lead_data list"
  last_processed_row :: nat

text \<open>
  What the code does not decide: the value that \<open>numericise\<close> makes of a cell's text, the
  regular-expression match of the address validator and the text of the \<open>TypeError\<close> that
  \<open>re.match\<close> raises on a value that is no string, the DNS lookup, whether the n-th call
  to the spreadsheet service raises, and whether the n-th message handed to the mail
  transport is delivered.
\<close>

record env =
  numericise :: "string \<Rightarrow> pyval"
  check_syntax :: "string \<Rightarrow> bool"
  type_error_text :: "pyval \<Rightarrow> string"
  check_mx_records :: "string \<Rightarrow> bool"
  sheet_fault :: "nat \<Rightarrow> exn option"
  smtp_ok :: "nat \<Rightarrow> bool"

section \<open>Strings and dictionaries of Python\<close>

text \<open>\<open>str.lower\<close> on the ASCII letters; every other byte is kept.\<close>

definition lower_char :: "char \<Rightarrow> char" where
  "lower_char c =
     (case map_of (zip ''ABCDEFGHIJKLMNOPQRSTUVWXYZ'' ''abcdefghijklmnopqrstuvwxyz'') c of
        None \<Rightarrow> c
      | Some c' \<Rightarrow> c')"

definition lower :: "string \<Rightarrow> string" where
  "lower s = map lower_char s"

text \<open>\<open>value.lower()\<close>: a number has no such method. The text of the exception names the
  type of the value.\<close>

fun type_name :: "pyval \<Rightarrow> string" where
  "type_name (PStr s) = ''str''"
| "type_name (PInt n) = ''int''"
| "type_name (PFloat f) = ''float''"

fun py_lower :: "pyval \<Rightarrow> exn + string" where
  "py_lower (PStr s) = Inr (lower s)"
| "py_lower v =
     Inl (AttributeError
            ([CHR 0x27] @ type_name v @ [CHR 0x27] @ '' object has no attribute ''
             @ [CHR 0x27] @ ''lower'' @ [CHR 0x27]))"

text \<open>\<open>d.get(key, default)\<close>.\<close>

definition get_default :: "lead_data \<Rightarrow> string \<Rightarrow> pyval \<Rightarrow> pyval" where
  "get_default d k dflt = (case d k of None \<Rightarrow> dflt | Some v \<Rightarrow> v)"

text \<open>The truth value of \<open>d.get(key)\<close>: false for a missing key, for the empty string and
  for a number that is zero.\<close>

fun float_nonzero :: "pyfloat \<Rightarrow> bool" where
  "float_nonzero (Finite m ex) = (m \<noteq> 0)"
| "float_nonzero f = True"

fun truthy :: "pyval option \<Rightarrow> bool" where
  "truthy None = False"
| "truthy (Some (PStr s)) = (s \<noteq> [])"
| "truthy (Some (PInt n)) = (n \<noteq> 0)"
| "truthy (Some (PFloat f)) = float_nonzero f"

text \<open>\<open>list.index(x)\<close>: the first position of x, counted from 0; None where Python raises
  \<open>ValueError\<close>.\<close>

fun list_index :: "'a list \<Rightarrow> 'a \<Rightarrow> nat option" where
  "list_index [] x = None"
| "list_index (y # ys) x =
     (if y = x then Some 0 else map_option Suc (list_index ys x))"

section \<open>TaskQueue\<close>

definition add_verification_task :: "lead \<Rightarrow> TaskQueue \<Rightarrow> TaskQueue" where
  "add_verification_task l q = q\<lparr>verification_queue := verification_queue q @ [l]\<rparr>"

definition add_outreach_task :: "lead \<Rightarrow> TaskQueue \<Rightarrow> TaskQueue" where
  "add_outreach_task l q = q\<lparr>outreach_queue := outreach_queue q @ [l]\<rparr>"

definition get_verification_task :: "TaskQueue \<Rightarrow> lead option \<times> TaskQueue" where
  "get_verification_task q =
     (case verification_queue q of
        [] \<Rightarrow> (None, q)
      | l # ls \<Rightarrow> (Some l, q\<lparr>verification_queue := ls\<rparr>))"

definition get_outreach_task :: "TaskQueue \<Rightarrow> lead option \<times> TaskQueue" where
  "get_outreach_task q =
     (case outreach_queue q of
        [] \<Rightarrow> (None, q)
      | l # ls \<Rightarrow> (Some l, q\<lparr>outreach_queue := ls\<rparr>))"

text \<open>
  A run of the queue's four operations, for stating its order: the operations in the
  order they are served, and what each \<open>get\<close> returned.
\<close>

datatype queue_op = AddVerification lead | AddOutreach lead | GetVerification | GetOutreach

datatype queue_out = GotVerification "lead option" | GotOutreach "lead option"

fun run_queue :: "TaskQueue \<Rightarrow> queue_op list \<Rightarrow> queue_out list \<times> TaskQueue" where
  "run_queue q [] = ([], q)"
| "run_queue q (AddVerification l # ops) = run_queue (add_verification_task l q) ops"
| "run_queue q (AddOutreach l # ops) = run_queue (add_outreach_task l q) ops"
| "run_queue q (GetVerification # ops) =
     (case get_verification_task q of
        (r, q') \<Rightarrow> (case run_queue q' ops of (outs, q'') \<Rightarrow> (GotVerification r # outs, q'')))"
| "run_queue q (GetOutreach # ops) =
     (case get_outreach_task q of
        (r, q') \<Rightarrow> (case run_queue q' ops of (outs, q'') \<Rightarrow> (GotOutreach r # outs, q'')))"

text \<open>The tasks put on, and the tasks taken off, each channel during a run.\<close>

fun verification_added :: "queue_op list \<Rightarrow> lead list" where
  "verification_added [] = []"
| "verification_added (AddVerification l # ops) = l # verification_added ops"
| "verification_added (_ # ops) = verification_added ops"

fun outreach_added :: "queue_op list \<Rightarrow> lead list" where
  "outreach_added [] = []"
| "outreach_added (AddOutreach l # ops) = l # outreach_added ops"
| "outreach_added (_ # ops) = outreach_added ops"

fun verification_taken :: "queue_out list \<Rightarrow> lead list" where
  "verification_taken [] = []"
| "verification_taken (GotVerification (Some l) # outs) = l # verification_taken outs"
| "verification_taken (_ # outs) = verification_taken outs"

fun outreach_taken :: "queue_out list \<Rightarrow> lead list" where
  "outreach_taken [] = []"
| "outreach_taken (GotOutreach (Some l) # outs) = l # outreach_taken outs"
| "outreach_taken (_ # outs) = outreach_taken outs"

section \<open>EmailValidator\<close>

definition disposable_domains :: "string list" where
  "disposable_domains =
     [''example.com'', ''mailinator.com'', ''tempmail.net'', ''company.com'', ''test.com'',
      ''business.com'']"

text \<open>\<open>email.split("@")[-1]\<close>: what follows the last \<open>@\<close>, the whole string without one.\<close>

definition email_domain :: "string \<Rightarrow> string" where
  "email_domain email = rev (takeWhile (\<lambda>c. c \<noteq> CHR ''@'') (rev email))"

definition is_disposable :: "string \<Rightarrow> bool" where
  "is_disposable email = (lower (email_domain email) \<in> set disposable_domains)"

text \<open>\<open>validate\<close> first matches the address against the pattern: \<open>re.match\<close> raises
  \<open>TypeError\<close> when the value is not a string.\<close>

definition validate :: "env \<Rightarrow> pyval \<Rightarrow> exn + bool" where
  "validate e email =
     (case email of
        PStr a \<Rightarrow>
          Inr (if \<not> check_syntax e a then False
               else if is_disposable a then False
               else check_mx_records e a)
      | _ \<Rightarrow> Inl (TypeError (type_error_text e email)))"

section \<open>CRMHandler\<close>

text \<open>One call to the spreadsheet service: it is counted, and it raises when the
  environment says so.\<close>

definition sheet_call :: "env \<Rightarrow> state \<Rightarrow> exn option \<times> state" where
  "sheet_call e s = (sheet_fault e (api_calls s), s\<lparr>api_calls := Suc (api_calls s)\<rparr>)"

text \<open>
  \<open>sheet.update_cells(cells)\<close>, once the service has accepted the call. The cell in row r
  and column c is the field named by the c-th header of record \<open>r - 2\<close>; rows between the
  last record and a written row appear as records of empty cells. A cell in the header
  row, or in a column beyond the headers, belongs to no record.
\<close>

definition blank_record :: "string list \<Rightarrow> sheet_row" where
  "blank_record hs = map_of (map (\<lambda>h. (h, [])) hs)"

definition write_cell :: "string list \<Rightarrow> sheet_row list \<Rightarrow> cell \<Rightarrow> sheet_row list" where
  "write_cell hs rs c =
     (if 2 \<le> row c \<and> 1 \<le> col c \<and> col c \<le> length hs then
        (let i = row c - 2;
             rs' = rs @ replicate (Suc i - length rs) (blank_record hs)
         in rs'[i := (rs' ! i)(hs ! (col c - 1) \<mapsto> val c)])
      else rs)"

definition update_cells :: "cell list \<Rightarrow> state \<Rightarrow> state" where
  "update_cells cells s = s\<lparr>records := foldl (write_cell (headers s)) (records s) cells\<rparr>"

text \<open>What \<open>sheet.get_all_records()\<close> returns once the service has accepted the call: the
  rows, every cell passed through \<open>numericise\<close>.\<close>

definition get_all_records :: "env \<Rightarrow> state \<Rightarrow> lead_data list" where
  "get_all_records e s = map (\<lambda>r. map_option (numericise e) \<circ> r) (records s)"

definition get_leads :: "env \<Rightarrow> state \<Rightarrow> (exn + lead_data list) \<times> state" where
  "get_leads e s =
     (case sheet_call e s of
        (Some x, s1) \<Rightarrow> (Inl x, s1)
      | (None, s1) \<Rightarrow> (Inr (get_all_records e s1), s1))"

definition get_new_leads :: "env \<Rightarrow> state \<Rightarrow> (exn + lead list) \<times> state" where
  "get_new_leads e s =
     (case sheet_call e s of
        (Some x, s1) \<Rightarrow> (Inl x, s1)
      | (None, s1) \<Rightarrow>
          (Inr (map (\<lambda>(idx, record). \<lparr>index = idx, data = record\<rparr>)
                 (filter (\<lambda>(idx, record).
                     idx + 2 > last_processed_row s1 \<and> \<not> truthy (record ''Processing Status''))
                   (enumerate 0 (get_all_records e s1)))),
           s1))"

text \<open>The loop of \<open>update_lead\<close> over \<open>updates.items()\<close>: the cells of the columns found, and
  one log message for each column that \<open>headers.index\<close> does not find.\<close>

fun build_cells :: "string list \<Rightarrow> nat \<Rightarrow> (string \<times> string) list \<Rightarrow> cell list \<times> log_msg list" where
  "build_cells hs row_index [] = ([], [])"
| "build_cells hs row_index ((c, v) # updates) =
     (case build_cells hs row_index updates of
        (cells, msgs) \<Rightarrow>
          (case list_index hs c of
             None \<Rightarrow> (cells, Column_not_found c # msgs)
           | Some col_index \<Rightarrow>
               (\<lparr>row = row_index + 2, col = col_index + 1, val = v\<rparr> # cells, msgs)))"

definition update_lead ::
  "env \<Rightarrow> nat \<Rightarrow> (string \<times> string) list \<Rightarrow> state \<Rightarrow> (exn + unit) \<times> state" where
  "update_lead e row_index updates s =
     (case sheet_call e s of
        (Some x, s1) \<Rightarrow> (Inl x, s1)
      | (None, s1) \<Rightarrow>
          (case build_cells (headers s1) row_index updates of
             (cells, msgs) \<Rightarrow>
               (let s2 = s1\<lparr>error_log := error_log s1 @ msgs\<rparr> in
                if cells \<noteq> [] then
                  (case sheet_call e s2 of
                     (Some x, s3) \<Rightarrow> (Inl x, s3)
                   | (None, s3) \<Rightarrow> (Inr (), update_cells cells s3))
                else (Inr (), s2))))"

definition validate_email :: "env \<Rightarrow> pyval \<Rightarrow> exn + bool" where
  "validate_email e email = validate e email"

text \<open>Reading the text of one cell of the sheet, by record and column name; None where
  there is no such record or no such cell.\<close>

definition field :: "state \<Rightarrow> nat \<Rightarrow> string \<Rightarrow> string option" where
  "field s i k = (if i < length (records s) then (records s ! i) k else None)"

section \<open>AgentA\<close>

definition check_industry :: "lead_data \<Rightarrow> exn + bool" where
  "check_industry lead_data =
     (case py_lower (get_default lead_data ''Industry'' (PStr [])) of
        Inl x \<Rightarrow> Inl x
      | Inr industry \<Rightarrow> Inr (industry \<notin> set [''competitor'', ''direct competitor'']))"

definition check_company_size :: "lead_data \<Rightarrow> exn + bool" where
  "check_company_size lead_data =
     (case py_lower (get_default lead_data ''Company'' (PStr [])) of
        Inl x \<Rightarrow> Inl x
      | Inr company \<Rightarrow> Inr (company \<noteq> ''test company''))"

definition check_contact_details :: "lead_data \<Rightarrow> bool" where
  "check_contact_details lead_data =
     list_all (\<lambda>f. truthy (lead_data f)) [''Email'', ''Company'', ''Contact Number'']"

text \<open>The three checks are called in this order while the list is built; the first that
  raises ends the call.\<close>

definition perform_additional_checks :: "lead_data \<Rightarrow> exn + bool" where
  "perform_additional_checks lead_data =
     (case check_industry lead_data of
        Inl x \<Rightarrow> Inl x
      | Inr industry_ok \<Rightarrow>
          (case check_company_size lead_data of
             Inl x \<Rightarrow> Inl x
           | Inr company_ok \<Rightarrow>
               Inr (list_all id [industry_ok, company_ok, check_contact_details lead_data])))"

text \<open>The local \<open>verification_status\<close> of \<open>process_lead\<close>, from the address it validates
  and the record it checks; the validation comes first.\<close>

definition verification_status :: "env \<Rightarrow> pyval \<Rightarrow> lead_data \<Rightarrow> exn + string" where
  "verification_status e email lead_data =
     (case validate_email e email of
        Inl x \<Rightarrow> Inl x
      | Inr is_valid \<Rightarrow>
          (case perform_additional_checks lead_data of
             Inl x \<Rightarrow> Inl x
           | Inr additional_checks_passed \<Rightarrow>
               Inr (if is_valid \<and> additional_checks_passed then ''Y'' else ''N'')))"

text \<open>The body of the \<open>try\<close> of \<open>AgentA.process_lead\<close>; \<open>now\<close> is the formatted time that
  \<open>datetime.now()\<close> gives during the call.\<close>

definition AgentA_try :: "env \<Rightarrow> string \<Rightarrow> lead \<Rightarrow> state \<Rightarrow> (exn + unit) \<times> state" where
  "AgentA_try e now l s =
     (case update_lead e (index l) [(''Processing Status'', ''Verifying'')] s of
        (Inl x, s1) \<Rightarrow> (Inl x, s1)
      | (Inr _, s1) \<Rightarrow>
          (case data l ''Email'' of
             None \<Rightarrow> (Inl (KeyError ''Email''), s1)
           | Some email \<Rightarrow>
               (case verification_status e email (data l) of
                  Inl x \<Rightarrow> (Inl x, s1)
                | Inr status \<Rightarrow>
                    (let updates = [(''Email Verified (Y/N)'', status),
                                    (''Processing Status'', ''Verified''),
                                    (''Verification Date'', now)]
                     in case update_lead e (index l) updates s1 of
                          (Inl x, s2) \<Rightarrow> (Inl x, s2)
                        | (Inr _, s2) \<Rightarrow>
                            if status = ''Y''
                            then (Inr (),
                                  s2\<lparr>task_queue := add_outreach_task l (task_queue s2)\<rparr>)
                            else (Inr (), s2)))))"

definition AgentA_process_lead :: "env \<Rightarrow> string \<Rightarrow> lead \<Rightarrow> state \<Rightarrow> (exn + unit) \<times> state" where
  "AgentA_process_lead e now l s =
     (case AgentA_try e now l s of
        (Inr u, s1) \<Rightarrow> (Inr u, s1)
      | (Inl x, s1) \<Rightarrow>
          update_lead e (index l)
            [(''Processing Status'', ''Error''),
             (''Notes'', ''Verification failed: '' @ str_exn x)]
            (s1\<lparr>error_log := error_log s1 @ [Error_processing_lead (data l ''Email'') x]\<rparr>))"

section \<open>AgentB\<close>

text \<open>\<open>send_email\<close>: reading \<open>lead["Email"]\<close> stands before the \<open>try\<close>, so a record without
  that key raises; whatever fails from the connection on, for a value of any type, is
  logged and returned as False.\<close>

definition send_email :: "env \<Rightarrow> lead_data \<Rightarrow> state \<Rightarrow> (exn + bool) \<times> state" where
  "send_email e lead_data s =
     (case lead_data ''Email'' of
        None \<Rightarrow> (Inl (KeyError ''Email''), s)
      | Some addr \<Rightarrow>
          (let s1 = s\<lparr>smtp_log := smtp_log s @ [lead_data]\<rparr> in
           if smtp_ok e (length (smtp_log s)) then (Inr True, s1)
           else (Inr False, s1\<lparr>error_log := error_log s1 @ [Failed_to_send_email addr]\<rparr>)))"

definition AgentB_try :: "env \<Rightarrow> string \<Rightarrow> lead \<Rightarrow> state \<Rightarrow> (exn + unit) \<times> state" where
  "AgentB_try e now l s =
     (case update_lead e (index l) [(''Processing Status'', ''Outreach'')] s of
        (Inl x, s1) \<Rightarrow> (Inl x, s1)
      | (Inr _, s1) \<Rightarrow>
          (case send_email e (data l) s1 of
             (Inl x, s2) \<Rightarrow> (Inl x, s2)
           | (Inr success, s2) \<Rightarrow>
               if \<not> success then (Inr (), s2\<lparr>retry_queue := retry_queue s2 @ [(l, 1)]\<rparr>)
               else update_lead e (index l)
                      [(''Processing Status'', ''Completed''),
                       (''Response Status'', ''Pending Response''),
                       (''Outreach Date'', now)]
                      s2))"

definition AgentB_process_lead :: "env \<Rightarrow> string \<Rightarrow> lead \<Rightarrow> state \<Rightarrow> (exn + unit) \<times> state" where
  "AgentB_process_lead e now l s =
     (case AgentB_try e now l s of
        (Inr u, s1) \<Rightarrow> (Inr u, s1)
      | (Inl x, s1) \<Rightarrow>
          update_lead e (index l)
            [(''Processing Status'', ''Error''),
             (''Notes'', ''Outreach failed: '' @ str_exn x)]
            (s1\<lparr>error_log := error_log s1 @ [Error_in_outreach (data l ''Email'') x]\<rparr>))"

text \<open>
  \<open>process_retry_queue\<close>: the loop runs while the retry queue is not empty. Each round
  takes the oldest entry off; an entry put back has one attempt more, so the weight below
  falls in every round.
\<close>

definition retry_weight :: "(lead \<times> nat) list \<Rightarrow> nat" where
  "retry_weight q = sum_list (map (\<lambda>(l, attempts). Suc (3 - attempts)) q)"

function process_retry_queue :: "env \<Rightarrow> state \<Rightarrow> (exn + unit) \<times> state" where
  "process_retry_queue e s =
     (case retry_queue s of
        [] \<Rightarrow> (Inr (), s)
      | (l, attempts) # rest \<Rightarrow>
          (let s1 = s\<lparr>retry_queue := rest\<rparr> in
           if attempts < 3 then
             (case send_email e (data l) s1 of
                (Inl x, s2) \<Rightarrow> (Inl x, s2)
              | (Inr success, s2) \<Rightarrow>
                  if \<not> success
                  then process_retry_queue e
                         (s2\<lparr>retry_queue := retry_queue s2 @ [(l, attempts + 1)]\<rparr>)
                  else process_retry_queue e s2)
           else process_retry_queue e s1))"
  by pat_completeness auto
termination
  by (relation "measure (\<lambda>(e, s). retry_weight (retry_queue s))")
     (auto simp: retry_weight_def send_email_def Let_def split: option.splits if_splits)

declare process_retry_queue.simps [simp del]

text \<open>One round of the loop of \<open>AgentB.start_processing\<close>, and the rounds made while
  \<open>running\<close> stays set, one time of day for each; an exception that leaves
  \<open>process_retry_queue\<close> or \<open>process_lead\<close> ends the loop.\<close>

definition AgentB_round :: "env \<Rightarrow> string \<Rightarrow> state \<Rightarrow> (exn + unit) \<times> state" where
  "AgentB_round e now s =
     (case process_retry_queue e s of
        (Inl x, s1) \<Rightarrow> (Inl x, s1)
      | (Inr _, s1) \<Rightarrow>
          (case get_outreach_task (task_queue s1) of
             (None, q) \<Rightarrow> (Inr (), s1\<lparr>task_queue := q\<rparr>)
           | (Some l, q) \<Rightarrow> AgentB_process_lead e now l (s1\<lparr>task_queue := q\<rparr>)))"

fun AgentB_start_processing :: "env \<Rightarrow> string list \<Rightarrow> state \<Rightarrow> (exn + unit) \<times> state" where
  "AgentB_start_processing e [] s = (Inr (), s)"
| "AgentB_start_processing e (now # nows) s =
     (case AgentB_round e now s of
        (Inl x, s1) \<Rightarrow> (Inl x, s1)
      | (Inr _, s1) \<Rightarrow> AgentB_start_processing e nows s1)"

text \<open>The number of messages for one record that were handed to the mail transport.\<close>

definition attempts_for :: "lead_data \<Rightarrow> state \<Rightarrow> nat" where
  "attempts_for d s = count_list (smtp_log s) d"

text \<open>The attempts a retry queue still allows for one record: an entry counted n allows
  \<open>3 - n\<close> more.\<close>

definition retry_budget :: "lead_data \<Rightarrow> (lead \<times> nat) list \<Rightarrow> nat" where
  "retry_budget d q = sum_list (map (\<lambda>(l, attempts). if data l = d then 3 - attempts else 0) q)"

section \<open>Supervisor\<close>

text \<open>The loop of \<open>monitor_new_leads\<close> over the new leads.\<close>

fun assign_leads :: "lead list \<Rightarrow> state \<Rightarrow> state" where
  "assign_leads [] s = s"
| "assign_leads (l # ls) s =
     assign_leads ls
       (s\<lparr>task_queue := add_verification_task l (task_queue s),
          last_processed_row := index l + 2\<rparr>)"

definition monitor_new_leads :: "env \<Rightarrow> state \<Rightarrow> state" where
  "monitor_new_leads e s =
     (case get_new_leads e s of
        (Inl x, s1) \<Rightarrow> s1\<lparr>error_log := error_log s1 @ [Error_monitoring_leads x]\<rparr>
      | (Inr new_leads, s1) \<Rightarrow> assign_leads new_leads s1)"

text \<open>A sequence of calls of \<open>monitor_new_leads\<close>, the sheet holding the given rows at
  each call: between two calls the other workers and the sheet's users may have changed
  any record. No task is taken off the verification queue meanwhile, so that the queue
  lists every task the calls have put on.\<close>

fun monitor_run :: "env \<Rightarrow> sheet_row list list \<Rightarrow> state \<Rightarrow> state" where
  "monitor_run e [] s = s"
| "monitor_run e (rs # rss) s = monitor_run e rss (monitor_new_leads e (s\<lparr>records := rs\<rparr>))"

record report =
  total_leads :: nat
  verified :: nat
  responses :: "string \<rightharpoonup> nat"

text \<open>One round of the loop of \<open>generate_report\<close> over the leads: the keys of
  \<open>report["responses"]\<close> are strings, and no number is equal to one of them.\<close>

definition tally :: "(string \<rightharpoonup> nat) \<Rightarrow> lead_data \<Rightarrow> (string \<rightharpoonup> nat)" where
  "tally resp l =
     (case get_default l ''Response Status'' (PStr ''No Response'') of
        PStr status \<Rightarrow>
          (case resp status of
             None \<Rightarrow> resp
           | Some n \<Rightarrow> resp(status \<mapsto> n + 1))
      | _ \<Rightarrow> resp)"

definition generate_report :: "env \<Rightarrow> state \<Rightarrow> (exn + report) \<times> state" where
  "generate_report e s =
     (case get_leads e s of
        (Inl x, s1) \<Rightarrow> (Inl x, s1)
      | (Inr leads, s1) \<Rightarrow>
          (Inr \<lparr>total_leads = length leads,
                verified =
                  length (filter (\<lambda>l. l ''Email Verified (Y/N)'' = Some (PStr ''Y'')) leads),
                responses =
                  foldl tally
                    [''Interested'' \<mapsto> 0, ''Not Interested'' \<mapsto> 0, ''No Response'' \<mapsto> 0]
                    leads\<rparr>,
           s1))"

text \<open>The number of records whose response status, as \<open>generate_report\<close> reads it
  (a record without the key counts as \<open>No Response\<close>), is the given one.\<close>

definition response_count :: "string \<Rightarrow> lead_data list \<Rightarrow> nat" where
  "response_count k leads =
     length (filter (\<lambda>l. get_default l ''Response Status'' (PStr ''No Response'') = PStr k)
               leads)"




text \<open>The tasks that stand in the verification queue of \<open>s'\<close> behind those of \<open>s\<close>.\<close>

definition enqueued_since :: "state \<Rightarrow> state \<Rightarrow> lead list" where
  "enqueued_since s s' =
     drop (length (verification_queue (task_queue s))) (verification_queue (task_queue s'))"

section \<open>Auxiliary notions for the proofs\<close>

text \<open>A cell that \<open>update_lead\<close> builds for record i: in row \<open>i + 2\<close>, under a header.\<close>

definition cell_ok :: "string list \<Rightarrow> nat \<Rightarrow> cell \<Rightarrow> bool" where
  "cell_ok hs i c = (row c = i + 2 \<and> 1 \<le> col c \<and> col c \<le> length hs)"

text \<open>The field name and the value that a cell stands for.\<close>

definition cell_kv :: "string list \<Rightarrow> cell \<Rightarrow> string \<times> string" where
  "cell_kv hs c = (hs ! (col c - 1), val c)"

text \<open>The records once the sheet reaches down to record i.\<close>

definition pad_records :: "string list \<Rightarrow> nat \<Rightarrow> sheet_row list \<Rightarrow> sheet_row list" where
  "pad_records hs i rs = rs @ replicate (Suc i - length rs) (blank_record hs)"

text \<open>What a run of the supervisor has added to the verification queue, and how the
  high-water mark has moved: the leads added stand behind the old ones, in strictly
  rising order of index, each above the old mark and not above the new one.\<close>

definition discovered :: "state \<Rightarrow> state \<Rightarrow> lead list \<Rightarrow> bool" where
  "discovered s s' new \<longleftrightarrow>
     verification_queue (task_queue s') = verification_queue (task_queue s) @ new
     \<and> outreach_queue (task_queue s') = outreach_queue (task_queue s)
     \<and> sorted_wrt (<) (map index new)
     \<and> list_all (\<lambda>l. last_processed_row s < index l + 2
                      \<and> index l + 2 \<le> last_processed_row s') new
     \<and> last_processed_row s \<le> last_processed_row s'"

text \<open>An entry of the retry queue whose lead has the key \<open>Email\<close>.\<close>

definition has_email :: "lead \<times> nat \<Rightarrow> bool" where
  "has_email entry = (data (fst entry) ''Email'' \<noteq> None)"

section \<open>Examples\<close>

definition example_headers :: "string list" where
  "example_headers =
     [''Email'', ''Company'', ''Industry'', ''Contact Number'', ''Email Verified (Y/N)'',
      ''Processing Status'', ''Verification Date'', ''Response Status'', ''Outreach Date'',
      ''Notes'']"

text \<open>One row of the sheet, and the record and the lead that the code gets from it.\<close>

definition example_row :: sheet_row where
  "example_row =
     [''Email'' \<mapsto> ''ann@acme.org'', ''Company'' \<mapsto> ''Acme'', ''Industry'' \<mapsto> ''Retail'',
      ''Contact Number'' \<mapsto> ''555-1'']"

definition example_data :: lead_data where
  "example_data =
     [''Email'' \<mapsto> PStr ''ann@acme.org'', ''Company'' \<mapsto> PStr ''Acme'',
      ''Industry'' \<mapsto> PStr ''Retail'', ''Contact Number'' \<mapsto> PStr ''555-1'']"

definition example_lead :: lead where
  "example_lead = \<lparr>index = 0, data = example_data\<rparr>"

definition example_state :: state where
  "example_state =
     \<lparr>headers = example_headers, records = [example_row], api_calls = 0, error_log = [],
      task_queue = \<lparr>verification_queue = [], outreach_queue = []\<rparr>,
      retry_queue = [], smtp_log = [], last_processed_row = 1\<rparr>"

text \<open>What \<open>numericise\<close> makes of the cells of the examples: the texts \<open>0\<close> and \<open>2024\<close> read
  as integers, every other text used below reads as no number and stays a string.\<close>

definition example_numericise :: "string \<Rightarrow> pyval" where
  "example_numericise text =
     (if text = ''0'' then PInt 0 else if text = ''2024'' then PInt 2024 else PStr text)"

text \<open>An environment in which every address that is a string is valid and every external
  call succeeds.\<close>

definition example_env :: env where
  "example_env =
     \<lparr>numericise = example_numericise,
      check_syntax = (\<lambda>email. True),
      type_error_text = (\<lambda>v. ''expected string or bytes-like object''),
      check_mx_records = (\<lambda>email. True),
      sheet_fault = (\<lambda>n. None), smtp_ok = (\<lambda>n. True)\<rparr>"

text \<open>The third call to the spreadsheet service fails: for \<open>AgentA.process_lead\<close> that is
  the reading of the headers for the write-back of the verification result.\<close>

definition env_write_back_fails :: env where
  "env_write_back_fails =
     example_env\<lparr>sheet_fault := (\<lambda>n. if n = 2 then Some (APIError ''quota exceeded'') else None)\<rparr>"

text \<open>The spreadsheet service fails at every call.\<close>

definition env_sheet_down :: env where
  "env_sheet_down = example_env\<lparr>sheet_fault := (\<lambda>n. Some (APIError ''service unavailable''))\<rparr>"

definition example_now :: string where
  "example_now = ''2024-05-01 09:30:00''"

text \<open>The first two messages handed to the mail transport are not delivered, every later
  one is.\<close>

definition env_two_send_failures :: env where
  "env_two_send_failures = example_env\<lparr>smtp_ok := (\<lambda>n. 2 \<le> n)\<rparr>"

text \<open>No message is ever delivered.\<close>

definition env_no_delivery :: env where
  "env_no_delivery = example_env\<lparr>smtp_ok := (\<lambda>n. False)\<rparr>"

text \<open>The state in which the verification worker leaves the example lead: verified, and
  waiting on the outreach channel.\<close>

definition example_outreach_state :: state where
  "example_outreach_state =
     snd (AgentA_process_lead example_env ''2024-05-01 09:30:00'' example_lead example_state)"

text \<open>Two rounds of the outreach worker, and the states they lead to from the state above
  when the first two sends fail.\<close>

definition example_rounds :: "string list" where
  "example_rounds = [''2024-05-01 09:30:01'', ''2024-05-01 09:30:02'']"

definition example_retrying_state :: state where
  "example_retrying_state =
     example_outreach_state
        \<lparr>records := [example_row(''Processing Status'' \<mapsto> ''Outreach'',
                   ''Email Verified (Y/N)'' \<mapsto> ''Y'',
                   ''Verification Date'' \<mapsto> ''2024-05-01 09:30:00'')],
         api_calls := 6,
         error_log := [Failed_to_send_email (PStr ''ann@acme.org'')],
         task_queue := \<lparr>verification_queue = [], outreach_queue = []\<rparr>,
         retry_queue := [(example_lead, 1)],
         smtp_log := [example_data]\<rparr>"

definition example_final_state :: state where
  "example_final_state =
     example_retrying_state
        \<lparr>error_log := [Failed_to_send_email (PStr ''ann@acme.org''),
                       Failed_to_send_email (PStr ''ann@acme.org'')],
         retry_queue := [],
         smtp_log := [example_data, example_data, example_data]\<rparr>"

text \<open>The example lead after one failed send, waiting in the retry queue.\<close>

definition example_retry_state :: state where
  "example_retry_state = example_state\<lparr>retry_queue := [(example_lead, 1)], smtp_log := [example_data]\<rparr>"












text \<open>Five rows for the report: one interested and verified, one still pending, one
  without the response column, one with a free-text response, and one whose response
  reads as a number.\<close>

definition example_report_state :: state where
  "example_report_state =
     example_state\<lparr>records :=
       [[''Email Verified (Y/N)'' \<mapsto> ''Y'', ''Response Status'' \<mapsto> ''Interested''],
        [''Email Verified (Y/N)'' \<mapsto> ''Y'', ''Response Status'' \<mapsto> ''Pending Response''],
        [''Email Verified (Y/N)'' \<mapsto> ''N''],
        [''Email Verified (Y/N)'' \<mapsto> ''y'', ''Response Status'' \<mapsto> ''call back''],
        [''Email Verified (Y/N)'' \<mapsto> ''N'', ''Response Status'' \<mapsto> ''0'']]\<rparr>"

section \<open>The task queue keeps the order of arrival\<close>

lemma run_queue_verification:
  "verification_taken (fst (run_queue q ops)) @ verification_queue (snd (run_queue q ops)) =
   verification_queue q @ verification_added ops"
  by (induction q ops rule: run_queue.induct)
     (auto simp: add_verification_task_def add_outreach_task_def get_verification_task_def
        get_outreach_task_def split: prod.splits list.splits)

lemma run_queue_outreach:
  "outreach_taken (fst (run_queue q ops)) @ outreach_queue (snd (run_queue q ops)) =
   outreach_queue q @ outreach_added ops"
  by (induction q ops rule: run_queue.induct)
     (auto simp: add_verification_task_def add_outreach_task_def get_verification_task_def
        get_outreach_task_def split: prod.splits list.splits)

text \<open>
  Claim C8. On each channel, and for every sequence of operations served one after the
  other: the tasks taken so far, followed by the tasks still queued, are the tasks queued
  at the start followed by the tasks added, in the order they were added, each once for
  each time it was added. A \<open>get\<close> on an empty channel returns None and changes nothing;
  a \<open>get\<close> on a channel that holds tasks returns the oldest and removes it.
\<close>

theorem TaskQueue_fifo:
  "verification_taken (fst (run_queue q ops)) @ verification_queue (snd (run_queue q ops)) =
     verification_queue q @ verification_added ops
   \<and> outreach_taken (fst (run_queue q ops)) @ outreach_queue (snd (run_queue q ops)) =
     outreach_queue q @ outreach_added ops
   \<and> get_verification_task (q\<lparr>verification_queue := []\<rparr>) =
       (None, q\<lparr>verification_queue := []\<rparr>)
   \<and> get_outreach_task (q\<lparr>outreach_queue := []\<rparr>) = (None, q\<lparr>outreach_queue := []\<rparr>)
   \<and> get_verification_task (q\<lparr>verification_queue := l # ls\<rparr>) =
       (Some l, q\<lparr>verification_queue := ls\<rparr>)
   \<and> get_outreach_task (q\<lparr>outreach_queue := l # ls\<rparr>) =
       (Some l, q\<lparr>outreach_queue := ls\<rparr>)"
  using run_queue_verification [of q ops] run_queue_outreach [of q ops]
  by (simp add: get_verification_task_def get_outreach_task_def)

section \<open>What \<open>update_lead\<close> does to the sheet\<close>

lemma list_index_None: "list_index hs c = None \<longleftrightarrow> c \<notin> set hs"
  by (induction hs) auto

lemma list_index_less: "list_index hs c = Some i \<Longrightarrow> i < length hs"
  by (induction hs arbitrary: i) (auto split: if_splits)

lemma list_index_nth: "list_index hs c = Some i \<Longrightarrow> hs ! i = c"
  by (induction hs arbitrary: i) (auto split: if_splits)

lemma build_cells_Cons:
  "build_cells hs i ((c, v) # us) =
     (case list_index hs c of
        None \<Rightarrow> (fst (build_cells hs i us), Column_not_found c # snd (build_cells hs i us))
      | Some n \<Rightarrow> (\<lparr>row = i + 2, col = n + 1, val = v\<rparr> # fst (build_cells hs i us),
                   snd (build_cells hs i us)))"
  by (simp split: prod.splits option.splits)


lemma build_cells_ok: "list_all (cell_ok hs i) (fst (build_cells hs i us))"
proof (induction us)
  case Nil
  show ?case by simp
next
  case (Cons u us)
  obtain c v where u: "u = (c, v)" by (cases u)
  show ?case
    using Cons.IH u list_index_less [of hs c]
    by (cases "list_index hs c")
       (auto simp: build_cells_Cons cell_ok_def simp del: build_cells.simps)
qed

lemma build_cells_kv:
  "map (cell_kv hs) (fst (build_cells hs i us)) = filter (\<lambda>u. fst u \<in> set hs) us"
proof (induction us)
  case Nil
  show ?case by simp
next
  case (Cons u us)
  obtain c v where u: "u = (c, v)" by (cases u)
  show ?case
  proof (cases "list_index hs c")
    case None
    then show ?thesis using Cons.IH u list_index_None [of hs c]
      by (simp add: build_cells_Cons del: build_cells.simps)
  next
    case (Some n)
    then have "c \<in> set hs" using list_index_None [of hs c] by auto
    then show ?thesis using Cons.IH u Some list_index_nth [OF Some]
      by (simp add: build_cells_Cons cell_kv_def del: build_cells.simps)
  qed
qed

lemma write_cell_in_range:
  "cell_ok hs i c \<Longrightarrow> i < length rs \<Longrightarrow>
   write_cell hs rs c = rs[i := (rs ! i)(fst (cell_kv hs c) \<mapsto> snd (cell_kv hs c))]"
  by (simp add: write_cell_def cell_ok_def cell_kv_def)

lemma foldl_write_cell_in_range:
  "list_all (cell_ok hs i) cells \<Longrightarrow> i < length rs \<Longrightarrow>
   foldl (write_cell hs) rs cells = rs[i := (rs ! i) ++ map_of (rev (map (cell_kv hs) cells))]"
proof (induction cells arbitrary: rs)
  case Nil
  then show ?case by simp
next
  case (Cons c cells)
  obtain k v where kv: "cell_kv hs c = (k, v)" by (cases "cell_kv hs c")
  have ok: "cell_ok hs i c" and oks: "list_all (cell_ok hs i) cells" using Cons.prems by auto
  have w: "write_cell hs rs c = rs[i := (rs ! i)(k \<mapsto> v)]"
    using write_cell_in_range [OF ok Cons.prems(2)] kv by simp
  have len: "i < length (rs[i := (rs ! i)(k \<mapsto> v)])" using Cons.prems(2) by simp
  have "foldl (write_cell hs) rs (c # cells) = foldl (write_cell hs) (rs[i := (rs ! i)(k \<mapsto> v)]) cells"
    using w by simp
  also have "\<dots> = (rs[i := (rs ! i)(k \<mapsto> v)])[i := ((rs[i := (rs ! i)(k \<mapsto> v)]) ! i) ++ map_of (rev (map (cell_kv hs) cells))]"
    by (rule Cons.IH [OF oks len])
  also have "\<dots> = rs[i := ((rs ! i)(k \<mapsto> v)) ++ map_of (rev (map (cell_kv hs) cells))]"
    using Cons.prems(2) by simp
  also have "((rs ! i)(k \<mapsto> v)) ++ map_of (rev (map (cell_kv hs) cells))
      = (rs ! i) ++ map_of (rev (map (cell_kv hs) (c # cells)))"
    using kv by (intro ext) (simp add: map_add_def split: option.splits)
  finally show ?case .
qed


lemma length_pad_records: "i < length (pad_records hs i rs)"
  by (simp add: pad_records_def)

lemma write_cell_pad:
  "cell_ok hs i c \<Longrightarrow> write_cell hs rs c = write_cell hs (pad_records hs i rs) c"
  by (simp add: write_cell_def cell_ok_def pad_records_def Let_def)

lemma foldl_write_cell:
  assumes "list_all (cell_ok hs i) cells" and "cells \<noteq> []"
  shows "foldl (write_cell hs) rs cells =
         (pad_records hs i rs)
           [i := (pad_records hs i rs ! i) ++ map_of (rev (map (cell_kv hs) cells))]"
proof -
  obtain c cs where cells: "cells = c # cs" using assms(2) by (cases cells) auto
  have ok: "cell_ok hs i c" using assms(1) cells by simp
  have "foldl (write_cell hs) rs cells = foldl (write_cell hs) (pad_records hs i rs) cells"
    using write_cell_pad [of hs i c rs] ok cells by simp
  then show ?thesis
    using foldl_write_cell_in_range [of hs i cells "pad_records hs i rs"] assms(1)
      length_pad_records [of i hs rs]
    by simp
qed

lemma update_lead_frame:
  "headers (snd (update_lead e i us s)) = headers s
   \<and> task_queue (snd (update_lead e i us s)) = task_queue s
   \<and> retry_queue (snd (update_lead e i us s)) = retry_queue s
   \<and> smtp_log (snd (update_lead e i us s)) = smtp_log s
   \<and> last_processed_row (snd (update_lead e i us s)) = last_processed_row s"
  by (simp add: update_lead_def sheet_call_def update_cells_def Let_def
      split: prod.splits option.splits)


lemma update_lead_returns:
  "sheet_fault e (api_calls s) = None \<Longrightarrow> sheet_fault e (Suc (api_calls s)) = None \<Longrightarrow>
   fst (update_lead e i us s) = Inr ()"
  by (auto simp: update_lead_def sheet_call_def update_cells_def Let_def
      split: prod.splits option.splits if_splits)


lemma update_lead_records:
  assumes "fst (update_lead e i us s) = Inr ()"
    and "filter (\<lambda>u. fst u \<in> set (headers s)) us \<noteq> []"
  shows "records (snd (update_lead e i us s)) =
         (pad_records (headers s) i (records s))
           [i := (pad_records (headers s) i (records s) ! i)
                   ++ map_of (rev (filter (\<lambda>u. fst u \<in> set (headers s)) us))]"
proof -
  obtain cells msgs where bc: "build_cells (headers s) i us = (cells, msgs)"
    by (cases "build_cells (headers s) i us")
  have kv: "map (cell_kv (headers s)) cells = filter (\<lambda>u. fst u \<in> set (headers s)) us"
    using build_cells_kv [of "headers s" i us] bc by simp
  have ok: "list_all (cell_ok (headers s) i) cells"
    using build_cells_ok [of "headers s" i us] bc by simp
  have ne: "cells \<noteq> []" using kv assms(2) by auto
  have "records (snd (update_lead e i us s)) = foldl (write_cell (headers s)) (records s) cells"
    using assms(1) bc ne
    by (auto simp: update_lead_def sheet_call_def update_cells_def Let_def
        split: prod.splits option.splits if_splits)
  then show ?thesis using foldl_write_cell [of "headers s" i cells "records s"] ok ne kv by simp
qed

lemma update_lead_field:
  assumes "fst (update_lead e i us s) = Inr ()"
    and "distinct (map fst us)"
    and "(c, v) \<in> set us"
    and "c \<in> set (headers s)"
  shows "field (snd (update_lead e i us s)) i c = Some v"
proof -
  let ?known = "filter (\<lambda>u. fst u \<in> set (headers s)) us"
  have mem: "(c, v) \<in> set ?known" using assms(3,4) by simp
  then have ne: "?known \<noteq> []" by (cases ?known) simp_all
  have "distinct (map fst (rev ?known))"
    using assms(2) by (simp add: distinct_map_filter rev_map [symmetric])
  then have "map_of (rev ?known) c = Some v"
    using mem by (intro map_of_is_SomeI) auto
  then show ?thesis
    using update_lead_records [OF assms(1) ne] length_pad_records [of i "headers s" "records s"]
    by (simp add: field_def)
qed




section \<open>The report\<close>

lemma tally_apply:
  "tally resp l k =
   map_option
     (\<lambda>n. n + (if get_default l ''Response Status'' (PStr ''No Response'') = PStr k
                then 1 else 0))
     (resp k)"
proof (cases "get_default l ''Response Status'' (PStr ''No Response'')")
  case (PStr status)
  then show ?thesis
    by (cases "resp k"; cases "resp status") (auto simp: tally_def)
next
  case (PInt n)
  then show ?thesis by (cases "resp k") (simp_all add: tally_def)
next
  case (PFloat f)
  then show ?thesis by (cases "resp k") (simp_all add: tally_def)
qed

lemma foldl_tally:
  "foldl tally resp ls k = map_option (\<lambda>n. n + response_count k ls) (resp k)"
proof (induction ls arbitrary: resp)
  case Nil
  then show ?case by (cases "resp k") (auto simp: response_count_def)
next
  case (Cons l ls)
  have "foldl tally resp (l # ls) k = foldl tally (tally resp l) ls k" by simp
  also have "\<dots> = map_option (\<lambda>n. n + response_count k ls) (tally resp l k)"
    by (rule Cons.IH)
  also have "\<dots> = map_option (\<lambda>n. n + response_count k (l # ls)) (resp k)"
    by (cases "resp k") (simp_all add: tally_apply [of resp l k] response_count_def)
  finally show ?case .
qed

lemma three_filters_le:
  "a \<noteq> b \<Longrightarrow> a \<noteq> c \<Longrightarrow> b \<noteq> c \<Longrightarrow>
   length (filter (\<lambda>x. f x = a) xs) + length (filter (\<lambda>x. f x = b) xs)
     + length (filter (\<lambda>x. f x = c) xs) \<le> length xs"
  by (induction xs) auto

lemma report_responses:
  "foldl tally [''Interested'' \<mapsto> 0, ''Not Interested'' \<mapsto> 0, ''No Response'' \<mapsto> 0] ls =
   [''Interested'' \<mapsto> response_count ''Interested'' ls,
    ''Not Interested'' \<mapsto> response_count ''Not Interested'' ls,
    ''No Response'' \<mapsto> response_count ''No Response'' ls]"
  by (rule ext) (simp add: foldl_tally)

text \<open>
  Claim C6. When the sheet can be read, \<open>generate_report\<close> returns a report in which
  \<open>total_leads\<close> is the number of records, \<open>verified\<close> is the number of records whose
  \<open>Email Verified (Y/N)\<close> is \<open>Y\<close>, and \<open>responses\<close> has exactly the three keys
  \<open>Interested\<close>, \<open>Not Interested\<close> and \<open>No Response\<close>, each with the number of records of
  that response status; a record with any other response status adds to none of them, and
  the three numbers together are at most \<open>total_leads\<close>. The records are those that
  \<open>get_all_records\<close> returns, one for each row of the sheet.
\<close>

theorem generate_report_tally:
  assumes "sheet_fault e (api_calls s) = None"
  shows "case fst (generate_report e s) of
           Inl x \<Rightarrow> False
         | Inr r \<Rightarrow>
             total_leads r = length (records s)
             \<and> total_leads r = length (get_all_records e s)
             \<and> verified r =
                 length (filter (\<lambda>l. l ''Email Verified (Y/N)'' = Some (PStr ''Y''))
                           (get_all_records e s))
             \<and> responses r =
                 [''Interested'' \<mapsto> response_count ''Interested'' (get_all_records e s),
                  ''Not Interested'' \<mapsto> response_count ''Not Interested'' (get_all_records e s),
                  ''No Response'' \<mapsto> response_count ''No Response'' (get_all_records e s)]
             \<and> response_count ''Interested'' (get_all_records e s)
                 + response_count ''Not Interested'' (get_all_records e s)
                 + response_count ''No Response'' (get_all_records e s) \<le> total_leads r"
proof -
  let ?ls = "get_all_records e s"
  have len: "length ?ls = length (records s)" by (simp add: get_all_records_def)
  have same: "get_all_records e (s\<lparr>api_calls := Suc (api_calls s)\<rparr>) = ?ls"
    by (simp add: get_all_records_def)
  have le: "response_count ''Interested'' ?ls + response_count ''Not Interested'' ?ls
      + response_count ''No Response'' ?ls \<le> length ?ls"
    unfolding response_count_def by (rule three_filters_le) simp_all
  show ?thesis
    using assms le len same
    by (simp add: generate_report_def get_leads_def sheet_call_def report_responses)
qed

theorem generate_report_tally_witness:
  "sheet_fault example_env (api_calls example_report_state) = None
   \<and> (case fst (generate_report example_env example_report_state) of
         Inl x \<Rightarrow> False
       | Inr r \<Rightarrow>
           total_leads r = 5 \<and> verified r = 2
           \<and> responses r = [''Interested'' \<mapsto> 1, ''Not Interested'' \<mapsto> 0, ''No Response'' \<mapsto> 1])"
proof -
  have h: "sheet_fault example_env (api_calls example_report_state) = None"
    by (simp add: example_env_def)
  have c: "response_count ''Interested'' (get_all_records example_env example_report_state) = 1
      \<and> response_count ''Not Interested''
            (get_all_records example_env example_report_state) = 0
      \<and> response_count ''No Response'' (get_all_records example_env example_report_state) = 1
      \<and> length (filter (\<lambda>l. l ''Email Verified (Y/N)'' = Some (PStr ''Y''))
            (get_all_records example_env example_report_state)) = 2"
    by (simp add: response_count_def get_all_records_def example_report_state_def
        get_default_def example_env_def example_numericise_def)
  show ?thesis
    using h c generate_report_tally [OF h]
    by (simp add: example_report_state_def split: sum.splits)
qed

section \<open>Case folding\<close>






section \<open>The verification worker\<close>

lemma update_lead_frameD:
  "update_lead e i us s = (r, s') \<Longrightarrow>
   headers s' = headers s \<and> task_queue s' = task_queue s \<and> retry_queue s' = retry_queue s
   \<and> smtp_log s' = smtp_log s \<and> last_processed_row s' = last_processed_row s"
  using update_lead_frame [of e i us s] by simp

text \<open>The two ways in which the \<open>try\<close> of \<open>AgentA.process_lead\<close> ends.\<close>

lemma AgentA_try_cases:
  obtains (raised) x s1 where
      "AgentA_try e now l s = (Inl x, s1)"
      "task_queue s1 = task_queue s" "headers s1 = headers s"
  | (returned) email status s1 s2 where
      "update_lead e (index l) [(''Processing Status'', ''Verifying'')] s = (Inr (), s1)"
      "data l ''Email'' = Some email"
      "verification_status e email (data l) = Inr status"
      "update_lead e (index l)
         [(''Email Verified (Y/N)'', status), (''Processing Status'', ''Verified''),
          (''Verification Date'', now)] s1 = (Inr (), s2)"
      "AgentA_try e now l s =
         (Inr (), if status = ''Y''
                  then s2\<lparr>task_queue := add_outreach_task l (task_queue s2)\<rparr> else s2)"
proof -
  obtain r1 s1 where u1:
    "update_lead e (index l) [(''Processing Status'', ''Verifying'')] s = (r1, s1)"
    by (cases "update_lead e (index l) [(''Processing Status'', ''Verifying'')] s")
  have f1: "task_queue s1 = task_queue s" "headers s1 = headers s"
    using update_lead_frameD [OF u1] by simp_all
  show ?thesis
  proof (cases r1)
    case (Inl x)
    then have "AgentA_try e now l s = (Inl x, s1)" using u1 by (simp add: AgentA_try_def)
    then show ?thesis using f1 by (rule raised)
  next
    case (Inr u)
    show ?thesis
    proof (cases "data l ''Email''")
      case None
      then have "AgentA_try e now l s = (Inl (KeyError ''Email''), s1)"
        using u1 Inr by (simp add: AgentA_try_def)
      then show ?thesis using f1 by (rule raised)
    next
      case (Some email)
      show ?thesis
      proof (cases "verification_status e email (data l)")
        case (Inl x)
        then have "AgentA_try e now l s = (Inl x, s1)"
          using u1 Inr Some by (simp add: AgentA_try_def)
        then show ?thesis using f1 by (rule raised)
      next
        case st: (Inr status)
        obtain r2 s2 where u2:
          "update_lead e (index l)
             [(''Email Verified (Y/N)'', status), (''Processing Status'', ''Verified''),
              (''Verification Date'', now)] s1 = (r2, s2)"
          by (cases "update_lead e (index l)
             [(''Email Verified (Y/N)'', status), (''Processing Status'', ''Verified''),
              (''Verification Date'', now)] s1")
        have f2: "task_queue s2 = task_queue s" "headers s2 = headers s"
          using update_lead_frameD [OF u2] f1 by simp_all
        show ?thesis
        proof (cases r2)
          case (Inl x)
          then have "AgentA_try e now l s = (Inl x, s2)"
            using u1 u2 Inr Some st by (simp add: AgentA_try_def)
          then show ?thesis using f2 by (rule raised)
        next
          case r2: (Inr u')
          have "AgentA_try e now l s =
             (Inr (), if status = ''Y''
                      then s2\<lparr>task_queue := add_outreach_task l (task_queue s2)\<rparr> else s2)"
            using u1 u2 Inr Some st r2 by (simp add: AgentA_try_def)
          with u1 Inr Some st u2 r2 show ?thesis by (intro returned) simp_all
        qed
      qed
    qed
  qed
qed

lemma AgentA_try_task_queue:
  "task_queue (snd (AgentA_try e now l s)) =
     (if fst (AgentA_try e now l s) = Inr ()
         \<and> verification_status e (get_default (data l) ''Email'' (PStr [])) (data l) = Inr ''Y''
      then add_outreach_task l (task_queue s) else task_queue s)"
proof (cases rule: AgentA_try_cases [of e now l s])
  case (raised x s1)
  then show ?thesis by simp
next
  case (returned email status s1 s2)
  have "task_queue s2 = task_queue s"
    using update_lead_frameD [OF returned(1)] update_lead_frameD [OF returned(4)] by simp
  then show ?thesis using returned by (simp add: get_default_def)
qed

lemma AgentA_try_headers: "headers (snd (AgentA_try e now l s)) = headers s"
proof (cases rule: AgentA_try_cases [of e now l s])
  case (raised x s1)
  then show ?thesis by simp
next
  case (returned email status s1 s2)
  have "headers s2 = headers s"
    using update_lead_frameD [OF returned(1)] update_lead_frameD [OF returned(4)] by simp
  then show ?thesis using returned by simp
qed

lemma AgentA_process_lead_task_queue:
  "task_queue (snd (AgentA_process_lead e now l s)) = task_queue (snd (AgentA_try e now l s))"
proof (cases "AgentA_try e now l s")
  case (Pair r s1)
  show ?thesis
    using Pair update_lead_frame
    by (cases r) (simp_all add: AgentA_process_lead_def)
qed





lemma example_status:
  assumes "check_syntax e ''ann@acme.org''" and "check_mx_records e ''ann@acme.org''"
  shows "verification_status e (PStr ''ann@acme.org'') example_data = Inr ''Y''"
    and "verification_status e (PStr ''ann@acme.org'')
           (example_data(''Company'' \<mapsto> PStr ''Test Company'')) = Inr ''N''"
    and "verification_status e (PStr ''ann@acme.org'')
           (example_data(''Industry'' \<mapsto> PStr ''Direct Competitor'')) = Inr ''N''"
    and "verification_status e (PStr ''ann@acme.org'')
           (example_data(''Contact Number'' \<mapsto> PInt 0)) = Inr ''N''"
  using assms
  by (simp_all add: verification_status_def validate_email_def validate_def is_disposable_def
      email_domain_def lower_def lower_char_def disposable_domains_def
      perform_additional_checks_def check_industry_def check_company_size_def
      check_contact_details_def get_default_def example_data_def)

text \<open>A company or an address that reads as a number makes the computation raise.\<close>

lemma example_status_raises:
  "verification_status example_env (PStr ''ann@acme.org'')
     (example_data(''Company'' \<mapsto> PInt 2024)) =
   Inl (AttributeError
          ([CHR 0x27] @ ''int'' @ [CHR 0x27] @ '' object has no attribute ''
           @ [CHR 0x27] @ ''lower'' @ [CHR 0x27]))"
  "verification_status example_env (PInt 2024) example_data =
   Inl (TypeError ''expected string or bytes-like object'')"
  by (simp_all add: verification_status_def validate_email_def validate_def is_disposable_def
      email_domain_def lower_def lower_char_def disposable_domains_def
      perform_additional_checks_def check_industry_def check_company_size_def
      get_default_def example_data_def example_env_def)






text \<open>
  Claim C2, as amended. \<open>process_lead\<close> puts the lead on the outreach channel, once and
  behind the tasks already there, exactly when its \<open>try\<close> ends without an exception and
  the computed verification status is \<open>Y\<close>; in every other case, and so whenever the
  status is \<open>N\<close>, the outreach channel is left as it was. The verification channel is
  never changed.
\<close>

theorem AgentA_outreach_task:
  "outreach_queue (task_queue (snd (AgentA_process_lead e now l s))) =
     outreach_queue (task_queue s) @
       (if fst (AgentA_try e now l s) = Inr ()
           \<and> verification_status e (get_default (data l) ''Email'' (PStr [])) (data l) =
               Inr ''Y''
        then [l] else [])
   \<and> verification_queue (task_queue (snd (AgentA_process_lead e now l s))) =
       verification_queue (task_queue s)"
  unfolding AgentA_process_lead_task_queue AgentA_try_task_queue
  by (simp add: add_outreach_task_def)

lemma write_back_fails:
  "verification_status env_write_back_fails (PStr ''ann@acme.org'') example_data = Inr ''Y''"
  "AgentA_try env_write_back_fails example_now example_lead example_state =
     (Inl (APIError ''quota exceeded''),
      example_state\<lparr>api_calls := 3,
         records := [example_row(''Processing Status'' \<mapsto> ''Verifying'')]\<rparr>)"
proof -
  show v: "verification_status env_write_back_fails (PStr ''ann@acme.org'') example_data =
      Inr ''Y''"
    by (rule example_status) (simp_all add: env_write_back_fails_def example_env_def)
  have em: "example_data ''Email'' = Some (PStr ''ann@acme.org'')"
    by (simp add: example_data_def)
  have u1: "update_lead env_write_back_fails 0 [(''Processing Status'', ''Verifying'')]
      example_state =
      (Inr (), example_state\<lparr>api_calls := 2,
         records := [example_row(''Processing Status'' \<mapsto> ''Verifying'')]\<rparr>)"
    by (simp add: update_lead_def sheet_call_def update_cells_def write_cell_def Let_def
        env_write_back_fails_def example_env_def example_state_def example_headers_def)
  have u2: "update_lead env_write_back_fails 0 us
      (example_state\<lparr>api_calls := 2,
         records := [example_row(''Processing Status'' \<mapsto> ''Verifying'')]\<rparr>) =
      (Inl (APIError ''quota exceeded''),
       example_state\<lparr>api_calls := 3,
         records := [example_row(''Processing Status'' \<mapsto> ''Verifying'')]\<rparr>)" for us
    by (simp add: update_lead_def sheet_call_def env_write_back_fails_def example_env_def
        example_state_def)
  show "AgentA_try env_write_back_fails example_now example_lead example_state =
     (Inl (APIError ''quota exceeded''),
      example_state\<lparr>api_calls := 3,
         records := [example_row(''Processing Status'' \<mapsto> ''Verifying'')]\<rparr>)"
    by (simp add: AgentA_try_def example_lead_def em v u1 u2)
qed

text \<open>
  The claim as first stated fails where the write-back of the result raises: the status
  computed for the lead is \<open>Y\<close>, and no outreach task is added.
\<close>

theorem AgentA_outreach_task_counterexample:
  "\<not> (outreach_queue (task_queue (snd (AgentA_process_lead env_write_back_fails example_now
          example_lead example_state))) =
        outreach_queue (task_queue example_state) @ [example_lead]
      \<longleftrightarrow> verification_status env_write_back_fails (PStr ''ann@acme.org'')
            (data example_lead) = Inr ''Y'')"
proof -
  have v: "verification_status env_write_back_fails (PStr ''ann@acme.org'')
      (data example_lead) = Inr ''Y''"
    using write_back_fails(1) by (simp add: example_lead_def)
  have "task_queue (snd (AgentA_process_lead env_write_back_fails example_now
          example_lead example_state)) = task_queue example_state"
    unfolding AgentA_process_lead_task_queue AgentA_try_task_queue
    by (simp add: write_back_fails(2))
  then show ?thesis using v by (simp add: example_state_def)
qed

text \<open>
  Claim C5, as amended. When an exception is raised in the \<open>try\<close> of \<open>process_lead\<close>, it is
  caught and the task queue is left as it was, so no outreach task is added. The handler
  then asks the sheet for an update; if that update does not raise in its turn and the
  sheet has the columns \<open>Processing Status\<close> and \<open>Notes\<close>, the lead's record holds
  \<open>Processing Status = Error\<close> and the note \<open>Verification failed: \<close> followed by the text
  of the exception.
\<close>

theorem AgentA_process_lead_error:
  assumes "fst (AgentA_try e now l s) = Inl x"
  shows "task_queue (snd (AgentA_process_lead e now l s)) = task_queue s
    \<and> (fst (AgentA_process_lead e now l s) = Inr ()
         \<and> ''Processing Status'' \<in> set (headers s) \<and> ''Notes'' \<in> set (headers s) \<longrightarrow>
       field (snd (AgentA_process_lead e now l s)) (index l) ''Processing Status'' = Some ''Error''
       \<and> field (snd (AgentA_process_lead e now l s)) (index l) ''Notes'' =
           Some (''Verification failed: '' @ str_exn x))"
proof -
  obtain r s1 where tr: "AgentA_try e now l s = (r, s1)" by (cases "AgentA_try e now l s")
  have r: "r = Inl x" using assms tr by simp
  let ?s1 = "s1\<lparr>error_log := error_log s1 @ [Error_processing_lead (data l ''Email'') x]\<rparr>"
  let ?us = "[(''Processing Status'', ''Error''),
              (''Notes'', ''Verification failed: '' @ str_exn x)]"
  have pl: "AgentA_process_lead e now l s = update_lead e (index l) ?us ?s1"
    using tr r by (simp add: AgentA_process_lead_def)
  have h: "headers ?s1 = headers s" using AgentA_try_headers [of e now l s] tr by simp
  have tq: "task_queue (snd (AgentA_process_lead e now l s)) = task_queue s"
    using assms unfolding AgentA_process_lead_task_queue AgentA_try_task_queue by simp
  have d: "distinct (map fst ?us)" by simp
  have "field (snd (update_lead e (index l) ?us ?s1)) (index l) c = Some v"
    if "fst (update_lead e (index l) ?us ?s1) = Inr ()" "(c, v) \<in> set ?us" "c \<in> set (headers s)"
    for c v
    using update_lead_field [OF that(1) d that(2)] that(3) h by simp
  then show ?thesis using tq unfolding pl by simp
qed

theorem AgentA_process_lead_error_witness:
  "fst (AgentA_try env_write_back_fails example_now example_lead example_state) =
     Inl (APIError ''quota exceeded'')
   \<and> task_queue (snd (AgentA_process_lead env_write_back_fails example_now example_lead
        example_state)) = task_queue example_state
   \<and> fst (AgentA_process_lead env_write_back_fails example_now example_lead example_state) =
       Inr ()
   \<and> field (snd (AgentA_process_lead env_write_back_fails example_now example_lead
        example_state)) 0 ''Processing Status'' = Some ''Error''
   \<and> field (snd (AgentA_process_lead env_write_back_fails example_now example_lead
        example_state)) 0 ''Notes'' = Some ''Verification failed: quota exceeded''"
proof -
  have t: "fst (AgentA_try env_write_back_fails example_now example_lead example_state) =
      Inl (APIError ''quota exceeded'')"
    by (simp add: write_back_fails(2))
  have p: "fst (AgentA_process_lead env_write_back_fails example_now example_lead
      example_state) = Inr ()"
    by (simp add: AgentA_process_lead_def write_back_fails(2))
       (rule update_lead_returns, simp_all add: env_write_back_fails_def)
  show ?thesis
    using t p AgentA_process_lead_error [OF t]
    by (simp add: example_lead_def example_state_def example_headers_def)
qed

text \<open>
  The claim as first stated fails where the spreadsheet service is down: the update made
  by the handler raises too, the exception leaves \<open>process_lead\<close>, and the record is not
  marked.
\<close>

theorem AgentA_process_lead_error_counterexample:
  "\<not> (fst (AgentA_try env_sheet_down example_now example_lead example_state) =
        Inl (APIError ''service unavailable'') \<longrightarrow>
      fst (AgentA_process_lead env_sheet_down example_now example_lead example_state) = Inr ()
      \<and> field (snd (AgentA_process_lead env_sheet_down example_now example_lead example_state))
           0 ''Processing Status'' = Some ''Error'')"
  by (simp add: AgentA_process_lead_def AgentA_try_def update_lead_def sheet_call_def
      env_sheet_down_def example_env_def example_lead_def example_state_def)

section \<open>The outreach worker and its retry queue\<close>

lemma retry_Nil: "retry_queue s = [] \<Longrightarrow> process_retry_queue e s = (Inr (), s)"
  by (subst process_retry_queue.simps) simp

lemma retry_drop:
  "retry_queue s = (l, a) # rest \<Longrightarrow> \<not> a < 3 \<Longrightarrow>
   process_retry_queue e s = process_retry_queue e (s\<lparr>retry_queue := rest\<rparr>)"
  by (subst process_retry_queue.simps) simp

lemma retry_raise:
  "retry_queue s = (l, a) # rest \<Longrightarrow> a < 3 \<Longrightarrow> data l ''Email'' = None \<Longrightarrow>
   process_retry_queue e s = (Inl (KeyError ''Email''), s\<lparr>retry_queue := rest\<rparr>)"
  by (subst process_retry_queue.simps) (simp add: send_email_def)

lemma retry_sent:
  "retry_queue s = (l, a) # rest \<Longrightarrow> a < 3 \<Longrightarrow> data l ''Email'' = Some addr \<Longrightarrow>
   smtp_ok e (length (smtp_log s)) \<Longrightarrow>
   process_retry_queue e s =
   process_retry_queue e (s\<lparr>retry_queue := rest, smtp_log := smtp_log s @ [data l]\<rparr>)"
  by (subst process_retry_queue.simps) (simp add: send_email_def)

lemma retry_failed:
  "retry_queue s = (l, a) # rest \<Longrightarrow> a < 3 \<Longrightarrow> data l ''Email'' = Some addr \<Longrightarrow>
   \<not> smtp_ok e (length (smtp_log s)) \<Longrightarrow>
   process_retry_queue e s =
   process_retry_queue e
     (s\<lparr>smtp_log := smtp_log s @ [data l],
        error_log := error_log s @ [Failed_to_send_email addr],
        retry_queue := rest @ [(l, a + 1)]\<rparr>)"
  by (subst process_retry_queue.simps) (simp add: send_email_def)

lemma retry_induct [case_names Nil drop raise sent failed]:
  assumes "\<And>s. retry_queue s = [] \<Longrightarrow> P s"
    and "\<And>s l a rest. retry_queue s = (l, a) # rest \<Longrightarrow> \<not> a < 3 \<Longrightarrow>
           P (s\<lparr>retry_queue := rest\<rparr>) \<Longrightarrow> P s"
    and "\<And>s l a rest. retry_queue s = (l, a) # rest \<Longrightarrow> a < 3 \<Longrightarrow>
           data l ''Email'' = None \<Longrightarrow> P s"
    and "\<And>s l a rest addr. retry_queue s = (l, a) # rest \<Longrightarrow> a < 3 \<Longrightarrow>
           data l ''Email'' = Some addr \<Longrightarrow> smtp_ok e (length (smtp_log s)) \<Longrightarrow>
           P (s\<lparr>retry_queue := rest, smtp_log := smtp_log s @ [data l]\<rparr>) \<Longrightarrow> P s"
    and "\<And>s l a rest addr. retry_queue s = (l, a) # rest \<Longrightarrow> a < 3 \<Longrightarrow>
           data l ''Email'' = Some addr \<Longrightarrow> \<not> smtp_ok e (length (smtp_log s)) \<Longrightarrow>
           P (s\<lparr>smtp_log := smtp_log s @ [data l],
                error_log := error_log s @ [Failed_to_send_email addr],
                retry_queue := rest @ [(l, a + 1)]\<rparr>) \<Longrightarrow> P s"
  shows "P s"
proof (induction "retry_weight (retry_queue s)" arbitrary: s rule: less_induct)
  case less
  show ?case
  proof (cases "retry_queue s")
    case Nil
    then show ?thesis by (rule assms(1))
  next
    case (Cons entry rest)
    obtain l a where entry: "entry = (l, a)" by (cases entry)
    have q: "retry_queue s = (l, a) # rest" using Cons entry by simp
    show ?thesis
    proof (cases "a < 3")
      case False
      have "P (s\<lparr>retry_queue := rest\<rparr>)"
        by (rule less) (simp add: q retry_weight_def)
      with q False show ?thesis by (rule assms(2))
    next
      case True
      show ?thesis
      proof (cases "data l ''Email''")
        case None
        with q True show ?thesis by (rule assms(3))
      next
        case (Some addr)
        show ?thesis
        proof (cases "smtp_ok e (length (smtp_log s))")
          case ok: True
          have "P (s\<lparr>retry_queue := rest, smtp_log := smtp_log s @ [data l]\<rparr>)"
            by (rule less) (simp add: q retry_weight_def)
          with q True Some ok show ?thesis by (rule assms(4))
        next
          case ko: False
          have "P (s\<lparr>smtp_log := smtp_log s @ [data l],
                error_log := error_log s @ [Failed_to_send_email addr],
                retry_queue := rest @ [(l, a + 1)]\<rparr>)"
            using True by (intro less) (simp add: q retry_weight_def)
          with q True Some ko show ?thesis by (rule assms(5))
        qed
      qed
    qed
  qed
qed

lemma retry_frame:
  "headers (snd (process_retry_queue e s)) = headers s
   \<and> records (snd (process_retry_queue e s)) = records s
   \<and> api_calls (snd (process_retry_queue e s)) = api_calls s
   \<and> task_queue (snd (process_retry_queue e s)) = task_queue s
   \<and> last_processed_row (snd (process_retry_queue e s)) = last_processed_row s"
proof (induction s rule: retry_induct [where e = e])
  case (Nil s)
  then show ?case by (simp add: retry_Nil)
next
  case (drop s l a rest)
  then show ?case by (simp add: retry_drop)
next
  case (raise s l a rest)
  then show ?case by (simp add: retry_raise)
next
  case (sent s l a rest addr)
  then show ?case by (simp add: retry_sent)
next
  case (failed s l a rest addr)
  then show ?case by (simp add: retry_failed)
qed

lemma retry_empties:
  "fst (process_retry_queue e s) = Inr () \<Longrightarrow> retry_queue (snd (process_retry_queue e s)) = []"
proof (induction s rule: retry_induct [where e = e])
  case (Nil s)
  then show ?case by (simp add: retry_Nil)
next
  case (drop s l a rest)
  then show ?case by (simp add: retry_drop)
next
  case (raise s l a rest)
  then show ?case by (simp add: retry_raise)
next
  case (sent s l a rest addr)
  then show ?case by (simp add: retry_sent)
next
  case (failed s l a rest addr)
  then show ?case by (simp add: retry_failed)
qed

lemma retry_returns:
  "list_all has_email (retry_queue s) \<Longrightarrow> fst (process_retry_queue e s) = Inr ()"
proof (induction s rule: retry_induct [where e = e])
  case (Nil s)
  then show ?case by (simp add: retry_Nil)
next
  case (drop s l a rest)
  then show ?case by (simp add: retry_drop)
next
  case (raise s l a rest)
  then show ?case by (simp add: has_email_def)
next
  case (sent s l a rest addr)
  then show ?case by (simp add: retry_sent)
next
  case (failed s l a rest addr)
  then show ?case by (simp add: retry_failed has_email_def)
qed

lemma retry_attempts_le:
  "attempts_for d (snd (process_retry_queue e s)) \<le>
   attempts_for d s + retry_budget d (retry_queue s)"
proof (induction s rule: retry_induct [where e = e])
  case (Nil s)
  then show ?case by (simp add: retry_Nil)
next
  case (drop s l a rest)
  then show ?case by (simp add: retry_drop attempts_for_def retry_budget_def)
next
  case (raise s l a rest)
  then show ?case by (simp add: retry_raise attempts_for_def retry_budget_def)
next
  case (sent s l a rest addr)
  then show ?case by (auto simp: retry_sent attempts_for_def retry_budget_def)
next
  case (failed s l a rest addr)
  then show ?case by (auto simp: retry_failed attempts_for_def retry_budget_def)
qed

lemma retry_attempts_all_fail:
  "list_all has_email (retry_queue s) \<Longrightarrow> (\<And>n. length (smtp_log s) \<le> n \<Longrightarrow> \<not> smtp_ok e n) \<Longrightarrow>
   attempts_for d (snd (process_retry_queue e s)) =
   attempts_for d s + retry_budget d (retry_queue s)"
proof (induction s rule: retry_induct [where e = e])
  case (Nil s)
  then show ?case by (simp add: retry_Nil retry_budget_def)
next
  case (drop s l a rest)
  then show ?case by (simp add: retry_drop attempts_for_def retry_budget_def)
next
  case (raise s l a rest)
  then show ?case by (simp add: has_email_def)
next
  case (sent s l a rest addr)
  then show ?case by auto
next
  case (failed s l a rest addr)
  then show ?case by (auto simp: retry_failed attempts_for_def retry_budget_def has_email_def)
qed


lemma example_outreach_state_eq:
  "example_outreach_state =
     \<lparr>headers = example_headers,
      records = [example_row(''Processing Status'' \<mapsto> ''Verified'',
                   ''Email Verified (Y/N)'' \<mapsto> ''Y'',
                   ''Verification Date'' \<mapsto> ''2024-05-01 09:30:00'')],
      api_calls = 4, error_log = [],
      task_queue = \<lparr>verification_queue = [], outreach_queue = [example_lead]\<rparr>,
      retry_queue = [], smtp_log = [], last_processed_row = 1\<rparr>"
proof -
  have v: "verification_status example_env (PStr ''ann@acme.org'') example_data = Inr ''Y''"
    by (rule example_status) (simp_all add: example_env_def)
  have em: "example_data ''Email'' = Some (PStr ''ann@acme.org'')"
    by (simp add: example_data_def)
  have u1: "update_lead example_env 0 [(''Processing Status'', ''Verifying'')] example_state =
      (Inr (), example_state\<lparr>api_calls := 2,
         records := [example_row(''Processing Status'' \<mapsto> ''Verifying'')]\<rparr>)"
    by (simp add: update_lead_def sheet_call_def update_cells_def write_cell_def Let_def
        example_env_def example_state_def example_headers_def)
  have u2: "update_lead example_env 0
       [(''Email Verified (Y/N)'', ''Y''), (''Processing Status'', ''Verified''),
        (''Verification Date'', ''2024-05-01 09:30:00'')]
       (example_state\<lparr>api_calls := 2,
         records := [example_row(''Processing Status'' \<mapsto> ''Verifying'')]\<rparr>) =
      (Inr (), example_state\<lparr>api_calls := 4,
         records := [example_row(''Processing Status'' \<mapsto> ''Verified'',
                   ''Email Verified (Y/N)'' \<mapsto> ''Y'',
                   ''Verification Date'' \<mapsto> ''2024-05-01 09:30:00'')]\<rparr>)"
    by (simp add: update_lead_def sheet_call_def update_cells_def write_cell_def Let_def
        example_env_def example_state_def example_headers_def fun_upd_twist)
  show ?thesis
    by (simp add: example_outreach_state_def AgentA_process_lead_def AgentA_try_def
        example_lead_def em v u1 u2 add_outreach_task_def)
      (simp add: example_state_def)
qed

lemma example_round_1:
  "AgentB_round env_two_send_failures ''2024-05-01 09:30:01'' example_outreach_state =
     (Inr (), example_retrying_state)"
proof -
  have em: "example_data ''Email'' = Some (PStr ''ann@acme.org'')"
    by (simp add: example_data_def)
  show ?thesis
    unfolding example_retrying_state_def example_outreach_state_eq
    by (simp add: AgentB_round_def retry_Nil get_outreach_task_def AgentB_process_lead_def
        AgentB_try_def update_lead_def sheet_call_def update_cells_def write_cell_def Let_def
        send_email_def env_two_send_failures_def example_env_def example_headers_def
        example_lead_def em fun_upd_twist)
qed

lemma example_round_2:
  "AgentB_round env_two_send_failures ''2024-05-01 09:30:02'' example_retrying_state =
     (Inr (), example_final_state)"
proof -
  have em: "example_data ''Email'' = Some (PStr ''ann@acme.org'')"
    by (simp add: example_data_def)
  show ?thesis
    unfolding example_final_state_def example_retrying_state_def example_outreach_state_eq
    by (simp add: AgentB_round_def process_retry_queue.simps get_outreach_task_def Let_def
        send_email_def env_two_send_failures_def example_env_def example_lead_def em)
qed

text \<open>
  Claim C4, on the code. The example lead is valid and has been verified. Its first send
  fails in \<open>process_lead\<close>, the second send fails and the third succeeds in
  \<open>process_retry_queue\<close>. The worker then stands still with both queues empty, three
  messages handed to the transport, and the record still at \<open>Processing Status = Outreach\<close>
  with no \<open>Response Status\<close>: the retry path writes nothing to the sheet.
\<close>

theorem retry_success_leaves_outreach:
  "AgentB_start_processing env_two_send_failures example_rounds example_outreach_state =
     (Inr (), example_final_state)
   \<and> smtp_log example_final_state = [example_data, example_data, example_data]
   \<and> retry_queue example_final_state = []
   \<and> outreach_queue (task_queue example_final_state) = []
   \<and> field example_final_state 0 ''Processing Status'' = Some ''Outreach''
   \<and> field example_final_state 0 ''Response Status'' = None"
proof -
  have "AgentB_start_processing env_two_send_failures example_rounds example_outreach_state =
     (Inr (), example_final_state)"
    by (simp add: example_rounds_def example_round_1 example_round_2)
  then show ?thesis
    by (simp add: example_final_state_def example_retrying_state_def field_def
        example_row_def)
qed

lemma AgentB_try_sends:
  "attempts_for d (snd (AgentB_try e now l s)) + retry_budget d (retry_queue (snd (AgentB_try e now l s)))
   \<le> attempts_for d s + retry_budget d (retry_queue s) + (if d = data l then 3 else 0)
   \<and> (list_all has_email (retry_queue s) \<longrightarrow> list_all has_email (retry_queue (snd (AgentB_try e now l s))))"
proof -
  obtain r1 s1 where u1:
    "update_lead e (index l) [(''Processing Status'', ''Outreach'')] s = (r1, s1)"
    by (cases "update_lead e (index l) [(''Processing Status'', ''Outreach'')] s")
  have f1: "retry_queue s1 = retry_queue s" "smtp_log s1 = smtp_log s"
    using update_lead_frameD [OF u1] by simp_all
  show ?thesis
  proof (cases r1)
    case (Inl x)
    then show ?thesis using u1 f1 by (simp add: AgentB_try_def attempts_for_def)
  next
    case (Inr u)
    show ?thesis
    proof (cases "data l ''Email''")
      case None
      then show ?thesis
        using u1 f1 Inr by (simp add: AgentB_try_def send_email_def attempts_for_def)
    next
      case (Some addr)
      show ?thesis
      proof (cases "smtp_ok e (length (smtp_log s))")
        case False
        then show ?thesis
          using u1 f1 Inr Some
          by (simp add: AgentB_try_def send_email_def attempts_for_def retry_budget_def
              has_email_def)
      next
        case True
        obtain r2 s2 where u2:
          "update_lead e (index l)
             [(''Processing Status'', ''Completed''), (''Response Status'', ''Pending Response''),
              (''Outreach Date'', now)] (s1\<lparr>smtp_log := smtp_log s1 @ [data l]\<rparr>) = (r2, s2)"
          by (cases "update_lead e (index l)
             [(''Processing Status'', ''Completed''), (''Response Status'', ''Pending Response''),
              (''Outreach Date'', now)] (s1\<lparr>smtp_log := smtp_log s1 @ [data l]\<rparr>)")
        have f2: "retry_queue s2 = retry_queue s" "smtp_log s2 = smtp_log s @ [data l]"
          using update_lead_frameD [OF u2] f1 by simp_all
        show ?thesis
          using u1 u2 f1 f2 Inr Some True
          by (simp add: AgentB_try_def send_email_def attempts_for_def)
      qed
    qed
  qed
qed

lemma AgentB_process_lead_sends:
  "attempts_for d (snd (AgentB_process_lead e now l s))
     + retry_budget d (retry_queue (snd (AgentB_process_lead e now l s)))
   \<le> attempts_for d s + retry_budget d (retry_queue s) + (if d = data l then 3 else 0)
   \<and> (list_all has_email (retry_queue s) \<longrightarrow>
        list_all has_email (retry_queue (snd (AgentB_process_lead e now l s))))"
proof (cases "AgentB_try e now l s")
  case (Pair r s1)
  have "attempts_for d (snd (AgentB_process_lead e now l s)) = attempts_for d s1
      \<and> retry_queue (snd (AgentB_process_lead e now l s)) = retry_queue s1"
    using Pair update_lead_frame
    by (cases r) (simp_all add: AgentB_process_lead_def attempts_for_def)
  then show ?thesis using AgentB_try_sends [of d e now l s] Pair by simp
qed

text \<open>
  Claim C3. A lead that \<open>process_lead\<close> takes up while the retry queue is empty (as it is
  whenever the worker's loop calls it) has had at most 3 messages handed to the transport
  once the next \<open>process_retry_queue\<close> is over, and that call returns with the retry queue
  empty. In general \<open>process_retry_queue\<close> hands over, for each record, no more messages
  than its queue allows (3 less the counter of each entry); it makes no call to the sheet
  and leaves every record as it was; and an entry whose counter is 3 is taken off the
  queue with nothing sent and nothing written.
\<close>

theorem outreach_at_most_three_attempts:
  "(let s1 = snd (AgentB_process_lead e now l (s\<lparr>retry_queue := []\<rparr>));
        s2 = snd (process_retry_queue e s1)
    in attempts_for (data l) s2 \<le> attempts_for (data l) s + 3
       \<and> fst (process_retry_queue e s1) = Inr () \<and> retry_queue s2 = [])
   \<and> attempts_for d (snd (process_retry_queue e s)) \<le>
       attempts_for d s + retry_budget d (retry_queue s)
   \<and> records (snd (process_retry_queue e s)) = records s
   \<and> api_calls (snd (process_retry_queue e s)) = api_calls s
   \<and> process_retry_queue e (s\<lparr>retry_queue := (l, 3) # q\<rparr>) =
       process_retry_queue e (s\<lparr>retry_queue := q\<rparr>)"
proof -
  let ?s0 = "s\<lparr>retry_queue := []\<rparr>"
  let ?s1 = "snd (AgentB_process_lead e now l ?s0)"
  let ?s2 = "snd (process_retry_queue e ?s1)"
  have a: "attempts_for (data l) ?s1 + retry_budget (data l) (retry_queue ?s1)
      \<le> attempts_for (data l) s + 3"
    and h: "list_all has_email (retry_queue ?s1)"
    using AgentB_process_lead_sends [of "data l" e now l ?s0]
    by (simp_all add: attempts_for_def retry_budget_def)
  have "attempts_for (data l) ?s2 \<le> attempts_for (data l) s + 3"
    using retry_attempts_le [of "data l" e ?s1] a by simp
  moreover have r: "fst (process_retry_queue e ?s1) = Inr ()" by (rule retry_returns [OF h])
  moreover have "retry_queue ?s2 = []" by (rule retry_empties [OF r])
  moreover have "process_retry_queue e (s\<lparr>retry_queue := (l, 3) # q\<rparr>) =
       process_retry_queue e (s\<lparr>retry_queue := q\<rparr>)"
    using retry_drop [of "s\<lparr>retry_queue := (l, 3) # q\<rparr>" l 3 q e] by simp
  ultimately show ?thesis
    using retry_attempts_le [of d e s] retry_frame [of e s] by (simp add: Let_def)
qed

text \<open>
  Claim C10. Whenever \<open>process_retry_queue\<close> returns, the retry queue is empty; it does
  return whenever every queued lead has the key \<open>Email\<close>; and when in addition every send
  of the call fails, each entry uses up within this one call all the attempts it has left.
\<close>

theorem process_retry_queue_drains:
  "(fst (process_retry_queue e s) = Inr () \<longrightarrow> retry_queue (snd (process_retry_queue e s)) = [])
   \<and> (list_all has_email (retry_queue s) \<longrightarrow> fst (process_retry_queue e s) = Inr ())
   \<and> (list_all has_email (retry_queue s) \<and> (\<forall>n. length (smtp_log s) \<le> n \<longrightarrow> \<not> smtp_ok e n) \<longrightarrow>
        attempts_for d (snd (process_retry_queue e s)) =
        attempts_for d s + retry_budget d (retry_queue s))"
  using retry_empties [of e s] retry_returns [of s e] retry_attempts_all_fail [of s e d]
  by blast

theorem process_retry_queue_drains_witness:
  "list_all has_email (retry_queue example_retry_state)
   \<and> fst (process_retry_queue env_no_delivery example_retry_state) = Inr ()
   \<and> retry_queue (snd (process_retry_queue env_no_delivery example_retry_state)) = []
   \<and> attempts_for example_data (snd (process_retry_queue env_no_delivery example_retry_state)) = 3"
proof -
  have h: "list_all has_email (retry_queue example_retry_state)"
    by (simp add: example_retry_state_def has_email_def example_lead_def example_data_def)
  have f: "\<forall>n. length (smtp_log example_retry_state) \<le> n \<longrightarrow> \<not> smtp_ok env_no_delivery n"
    by (simp add: env_no_delivery_def)
  show ?thesis
    using h f process_retry_queue_drains [of env_no_delivery example_retry_state example_data]
    by (simp add: example_retry_state_def attempts_for_def retry_budget_def example_lead_def)
qed


section \<open>Discovery of new leads\<close>

lemma assign_leads_queue:
  "verification_queue (task_queue (assign_leads ls s)) = verification_queue (task_queue s) @ ls
   \<and> outreach_queue (task_queue (assign_leads ls s)) = outreach_queue (task_queue s)"
  by (induction ls arbitrary: s) (simp_all add: add_verification_task_def)

lemma assign_leads_mark:
  "last_processed_row (assign_leads ls s) =
     (if ls = [] then last_processed_row s else index (last ls) + 2)"
  by (induction ls arbitrary: s) simp_all

lemma sorted_last_max:
  "sorted_wrt (<) (map index ls) \<Longrightarrow> l \<in> set ls \<Longrightarrow> index l \<le> index (last ls)"
  by (induction ls) (auto simp: less_imp_le)

lemma new_leads_sorted:
  "sorted_wrt (<) (map index
     (map (\<lambda>(idx, record). \<lparr>index = idx, data = record\<rparr>)
        (filter P (enumerate n rs))))"
proof -
  have "sorted_wrt (\<lambda>a b. fst a < fst b) (enumerate n rs)"
    using sorted_wrt_map [of "(<)" fst "enumerate n rs"] by (simp add: sorted_wrt_upt)
  then have "sorted_wrt (\<lambda>a b. fst a < fst b) (filter P (enumerate n rs))"
    by (rule sorted_wrt_filter)
  then show ?thesis by (simp add: sorted_wrt_map case_prod_unfold)
qed

lemma monitor_new_leads_discovered:
  "\<exists>new. discovered s (monitor_new_leads e s) new"
proof (cases "sheet_fault e (api_calls s)")
  case (Some x)
  then have "discovered s (monitor_new_leads e s) []"
    by (simp add: discovered_def monitor_new_leads_def get_new_leads_def sheet_call_def)
  then show ?thesis ..
next
  case None
  define s1 where "s1 = s\<lparr>api_calls := Suc (api_calls s)\<rparr>"
  define new where "new = map (\<lambda>(idx, record). \<lparr>index = idx, data = record\<rparr>)
     (filter (\<lambda>(idx, record).
         idx + 2 > last_processed_row s1 \<and> \<not> truthy (record ''Processing Status''))
       (enumerate 0 (get_all_records e s1)))"
  have m: "monitor_new_leads e s = assign_leads new s1"
    using None by (simp add: monitor_new_leads_def get_new_leads_def sheet_call_def s1_def new_def)
  have srt: "sorted_wrt (<) (map index new)" unfolding new_def by (rule new_leads_sorted)
  have above: "last_processed_row s < index l + 2" if "l \<in> set new" for l
    using that by (auto simp: new_def s1_def)
  have below: "index l + 2 \<le> last_processed_row (assign_leads new s1)" if "l \<in> set new" for l
    using that sorted_last_max [OF srt that] by (auto simp: assign_leads_mark)
  have mark: "last_processed_row s \<le> last_processed_row (assign_leads new s1)"
  proof (cases "new = []")
    case True
    then show ?thesis by (simp add: assign_leads_mark s1_def)
  next
    case False
    then have "last new \<in> set new" by simp
    then show ?thesis using above [of "last new"] False by (simp add: assign_leads_mark)
  qed
  have "discovered s (monitor_new_leads e s) new"
    unfolding discovered_def m
    using srt above below mark assign_leads_queue [of new s1]
    by (simp add: list_all_iff s1_def)
  then show ?thesis ..
qed

lemma discovered_trans:
  assumes "discovered s s1 new1" and "discovered (s1\<lparr>records := rs\<rparr>) s2 new2"
  shows "discovered s s2 (new1 @ new2)"
proof -
  have "index a < index b" if "a \<in> set new1" "b \<in> set new2" for a b
  proof -
    have "index a + 2 \<le> last_processed_row s1" using assms(1) that(1)
      by (auto simp: discovered_def list_all_iff)
    moreover have "last_processed_row s1 < index b + 2" using assms(2) that(2)
      by (auto simp: discovered_def list_all_iff)
    ultimately show ?thesis by simp
  qed
  then have "sorted_wrt (<) (map index (new1 @ new2))"
    using assms by (auto simp: discovered_def sorted_wrt_append)
  then show ?thesis
    using assms by (auto simp: discovered_def list_all_iff)
qed

lemma monitor_run_discovered: "\<exists>new. discovered s (monitor_run e rss s) new"
proof (induction rss arbitrary: s)
  case Nil
  have "discovered s s []" by (simp add: discovered_def)
  then show ?case by auto
next
  case (Cons rs rss)
  obtain new1 where n1: "discovered (s\<lparr>records := rs\<rparr>) (monitor_new_leads e (s\<lparr>records := rs\<rparr>)) new1"
    using monitor_new_leads_discovered by blast
  then have n1': "discovered s (monitor_new_leads e (s\<lparr>records := rs\<rparr>)) new1"
    by (simp add: discovered_def)
  obtain new2 where n2: "discovered (monitor_new_leads e (s\<lparr>records := rs\<rparr>))
      (monitor_run e rss (monitor_new_leads e (s\<lparr>records := rs\<rparr>))) new2"
    using Cons.IH by blast
  have "discovered ((monitor_new_leads e (s\<lparr>records := rs\<rparr>))\<lparr>records := records (monitor_new_leads e (s\<lparr>records := rs\<rparr>))\<rparr>)
      (monitor_run e rss (monitor_new_leads e (s\<lparr>records := rs\<rparr>))) new2"
    using n2 by simp
  from discovered_trans [OF n1' this] show ?case by auto
qed

text \<open>
  Claim C7. For every sequence of calls of \<open>monitor_new_leads\<close>, whatever the sheet holds at
  each call and whether or not reading it raises: the leads put on the verification queue
  stand behind those already there, their indices rise strictly (so no index is put on
  twice), the row \<open>index + 2\<close> of each is above the high-water mark \<open>last_processed_row\<close>
  the run started with and not above the mark it ends with, and the mark never falls.
\<close>

theorem monitor_run_high_water_mark:
  "verification_queue (task_queue (monitor_run e rss s)) =
     verification_queue (task_queue s) @ enqueued_since s (monitor_run e rss s)
   \<and> sorted_wrt (<) (map index (enqueued_since s (monitor_run e rss s)))
   \<and> list_all (\<lambda>l. last_processed_row s < index l + 2
                    \<and> index l + 2 \<le> last_processed_row (monitor_run e rss s))
        (enqueued_since s (monitor_run e rss s))
   \<and> last_processed_row s \<le> last_processed_row (monitor_run e rss s)"
proof -
  obtain new where n: "discovered s (monitor_run e rss s) new"
    using monitor_run_discovered by blast
  then have "enqueued_since s (monitor_run e rss s) = new"
    by (simp add: discovered_def enqueued_since_def)
  then show ?thesis using n by (simp add: discovered_def)
qed


end
